theory Spec2Isabelle
  imports Complex_Main
begin

section \<open>Strings of the document pipeline\<close>

text \<open>
  The program is \<^verbatim>\<open>src/document_intelligence.py\<close>, class
  \<^verbatim>\<open>DocumentIntelligenceSystem\<close>. A Python \<^verbatim>\<open>str\<close> is modelled as a
  \<^typ>\<open>string\<close>, one \<^typ>\<open>char\<close> per code point, and a \<^typ>\<open>char\<close> is read as the
  code point of the same number (0 to 255). The character classes below are those of
  Python 3 on that range; text with code points above 255 is outside the model.
\<close>

definition code_point :: "char \<Rightarrow> nat" where
  "code_point c = of_char c"

text \<open>\<^verbatim>\<open>str.isspace\<close> on one character, which is also the class \<^verbatim>\<open>\s\<close> of \<^verbatim>\<open>re\<close>.\<close>

definition isspace :: "char \<Rightarrow> bool" where
  "isspace c = (let n = code_point c in
     (9 \<le> n \<and> n \<le> 13) \<or> (28 \<le> n \<and> n \<le> 32) \<or> n = 133 \<or> n = 160)"

text \<open>The class \<^verbatim>\<open>\d\<close> of \<^verbatim>\<open>re\<close>.\<close>

definition isdigit :: "char \<Rightarrow> bool" where
  "isdigit c = (let n = code_point c in 48 \<le> n \<and> n \<le> 57)"

text \<open>The classes \<^verbatim>\<open>[A-Z]\<close> and \<^verbatim>\<open>[a-z]\<close> of \<^verbatim>\<open>re\<close>.\<close>

definition is_AZ :: "char \<Rightarrow> bool" where
  "is_AZ c = (let n = code_point c in 65 \<le> n \<and> n \<le> 90)"

definition is_az :: "char \<Rightarrow> bool" where
  "is_az c = (let n = code_point c in 97 \<le> n \<and> n \<le> 122)"

text \<open>Cased characters: what \<^verbatim>\<open>str.isupper\<close> and \<^verbatim>\<open>str.islower\<close> say of one character.\<close>

definition char_isupper :: "char \<Rightarrow> bool" where
  "char_isupper c = (let n = code_point c in
     (65 \<le> n \<and> n \<le> 90) \<or> (192 \<le> n \<and> n \<le> 222 \<and> n \<noteq> 215))"

definition char_islower :: "char \<Rightarrow> bool" where
  "char_islower c = (let n = code_point c in
     (97 \<le> n \<and> n \<le> 122) \<or> n = 170 \<or> n = 181 \<or> n = 186 \<or>
     (223 \<le> n \<and> n \<le> 255 \<and> n \<noteq> 247))"

text \<open>\<^verbatim>\<open>str.isupper\<close>: no lowercase character, and one uppercase character at least.\<close>

definition str_isupper :: "string \<Rightarrow> bool" where
  "str_isupper s = (\<not> list_ex char_islower s \<and> list_ex char_isupper s)"

text \<open>\<^verbatim>\<open>str.lower\<close>.\<close>

definition char_lower :: "char \<Rightarrow> char" where
  "char_lower c = (if char_isupper c then char_of (code_point c + 32) else c)"

definition str_lower :: "string \<Rightarrow> string" where
  "str_lower s = map char_lower s"

text \<open>\<^verbatim>\<open>str.strip()\<close>: leading and trailing whitespace removed.\<close>

definition strip :: "string \<Rightarrow> string" where
  "strip s = rev (dropWhile isspace (rev (dropWhile isspace s)))"

text \<open>
  Splitting at every character of a class: \<^verbatim>\<open>text.split('\n')\<close> and
  \<^verbatim>\<open>re.split(r'[.!?]', text)\<close>. A string with n separators gives n + 1 pieces, empty
  ones included.
\<close>

fun split_on :: "(char \<Rightarrow> bool) \<Rightarrow> string \<Rightarrow> string list" where
  "split_on p [] = [[]]"
| "split_on p (c # cs) =
     (if p c then [] # split_on p cs
      else (case split_on p cs of [] \<Rightarrow> [[c]] | r # rs \<Rightarrow> (c # r) # rs))"

definition newline :: char where
  "newline = CHR 0x0A"

definition split_lines :: "string \<Rightarrow> string list" where
  "split_lines text = split_on (\<lambda>c. c = newline) text"

text \<open>\<^verbatim>\<open>str.split()\<close> with no argument: the maximal runs of non-whitespace characters.\<close>

definition split_ws :: "string \<Rightarrow> string list" where
  "split_ws text = filter (\<lambda>w. w \<noteq> []) (split_on isspace text)"

text \<open>\<^verbatim>\<open>sep.join(parts)\<close>.\<close>

fun join :: "string \<Rightarrow> string list \<Rightarrow> string" where
  "join sep [] = []"
| "join sep [x] = x"
| "join sep (x # y # ys) = x @ sep @ join sep (y # ys)"

text \<open>\<^verbatim>\<open>s.count(c)\<close> for a one-character \<^verbatim>\<open>c\<close>.\<close>

definition count_char :: "char \<Rightarrow> string \<Rightarrow> nat" where
  "count_char c s = length (filter (\<lambda>x. x = c) s)"

text \<open>\<^verbatim>\<open>sub in s\<close>.\<close>

fun contains :: "string \<Rightarrow> string \<Rightarrow> bool" where
  "contains sub [] = (sub = [])"
| "contains sub (c # cs) = (take (length sub) (c # cs) = sub \<or> contains sub cs)"

section \<open>Section filter\<close>

text \<open>
  \<^verbatim>\<open>
  def _is_meaningful_section(self, text: str) -> bool:
      noise = [
          len(text.split()) < 10,
          (text.count('\n') / len(text) > 0.1) if len(text) > 0 else False,
          (len(re.findall(r'\d', text)) / len(text) > 0.3) if len(text) > 0 else False,
      ]
      return not any(noise)
  \<close>
  Python's \<^verbatim>\<open>/\<close> raises \<^verbatim>\<open>ZeroDivisionError\<close> on a zero divisor; the model keeps
  that branch. The quotient of the two counts is taken exactly, as a rational, and
  compared with 1/10 and 3/10. Python rounds the quotient and the two constants to
  doubles; the comparison of the doubles is that of the exact values whenever the text
  has fewer than \<open>10\<^sup>1\<^sup>5\<close> characters, since two distinct ratios of such counts
  differ by far more than one rounding step.
\<close>

datatype py_error = ZeroDivisionError

definition truediv :: "nat \<Rightarrow> nat \<Rightarrow> py_error + rat" where
  "truediv a b = (if b = 0 then Inl ZeroDivisionError else Inr (of_nat a / of_nat b))"

definition exceeds :: "py_error + rat \<Rightarrow> rat \<Rightarrow> py_error + bool" where
  "exceeds q bound = (case q of Inl e \<Rightarrow> Inl e | Inr r \<Rightarrow> Inr (r > bound))"

definition is_meaningful_section :: "string \<Rightarrow> py_error + bool" where
  "is_meaningful_section text =
     (let noise1 = (length (split_ws text) < 10) in
      case (if length text > 0
            then exceeds (truediv (count_char newline text) (length text)) (1 / 10)
            else Inr False) of
        Inl e \<Rightarrow> Inl e
      | Inr noise2 \<Rightarrow>
         (case (if length text > 0
                then exceeds (truediv (length (filter isdigit text)) (length text)) (3 / 10)
                else Inr False) of
            Inl e \<Rightarrow> Inl e
          | Inr noise3 \<Rightarrow> Inr (\<not> (noise1 \<or> noise2 \<or> noise3))))"

section \<open>Header detection\<close>

text \<open>
  The five patterns of \<^verbatim>\<open>_is_section_header\<close> are sequences of character classes,
  each taken once, once or more (\<^verbatim>\<open>+\<close>) or any number of times (\<^verbatim>\<open>*\<close>), some closed
  by \<^verbatim>\<open>$\<close>. \<^verbatim>\<open>re.match\<close> asks whether the pattern matches a prefix of the line, so
  the leading \<^verbatim>\<open>^\<close> adds nothing; \<^verbatim>\<open>$\<close> holds at the end of the line and just before
  a newline that ends it.
\<close>

datatype rx_item = Once "char \<Rightarrow> bool" | Many1 "char \<Rightarrow> bool" | Many0 "char \<Rightarrow> bool" | Dollar

fun re_match :: "rx_item list \<Rightarrow> string \<Rightarrow> bool" where
  "re_match [] s = True"
| "re_match (Once p # r) [] = False"
| "re_match (Once p # r) (c # cs) = (p c \<and> re_match r cs)"
| "re_match (Many1 p # r) [] = False"
| "re_match (Many1 p # r) (c # cs) = (p c \<and> re_match (Many0 p # r) cs)"
| "re_match (Many0 p # r) [] = re_match r []"
| "re_match (Many0 p # r) (c # cs) = (re_match r (c # cs) \<or> (p c \<and> re_match (Many0 p # r) cs))"
| "re_match (Dollar # r) s = ((s = [] \<or> s = [newline]) \<and> re_match r s)"

text \<open>
  \<^verbatim>\<open>
  patterns = [
      r'^[A-Z][A-Za-z\s&-]+$',
      r'^\d+\.\s*[A-Z]',
      r'^[IVX]+\.\s*[A-Z]',
      r'^[A-Z\s]+$',
      r'^[A-Z][a-z]+\s+[A-Z][a-z]+',
  ]
  \<close>
\<close>

definition is_dot :: "char \<Rightarrow> bool" where
  "is_dot c = (c = CHR ''.'')"

definition pattern1 :: "rx_item list" where
  "pattern1 = [Once is_AZ,
     Many1 (\<lambda>c. is_AZ c \<or> is_az c \<or> isspace c \<or> c = CHR ''&'' \<or> c = CHR ''-''), Dollar]"

definition pattern2 :: "rx_item list" where
  "pattern2 = [Many1 isdigit, Once is_dot, Many0 isspace, Once is_AZ]"

definition pattern3 :: "rx_item list" where
  "pattern3 = [Many1 (\<lambda>c. c = CHR ''I'' \<or> c = CHR ''V'' \<or> c = CHR ''X''),
     Once is_dot, Many0 isspace, Once is_AZ]"

definition pattern4 :: "rx_item list" where
  "pattern4 = [Many1 (\<lambda>c. is_AZ c \<or> isspace c), Dollar]"

definition pattern5 :: "rx_item list" where
  "pattern5 = [Once is_AZ, Many1 is_az, Many1 isspace, Once is_AZ, Many1 is_az]"

definition patterns :: "rx_item list list" where
  "patterns = [pattern1, pattern2, pattern3, pattern4, pattern5]"

text \<open>
  \<^verbatim>\<open>
  def _is_section_header(self, line: str) -> bool:
      if len(line) < 3 or len(line) > 150:
          return False
      patterns = [...]
      for pattern in patterns:
          if re.match(pattern, line):
              if line.isupper() and len(line) > 50:
                  continue
              if line.count('.') > 3:
                  continue
              return True
      return False
  \<close>
\<close>

fun header_loop :: "rx_item list list \<Rightarrow> string \<Rightarrow> bool" where
  "header_loop [] line = False"
| "header_loop (pattern # rest) line =
     (if re_match pattern line then
        (if str_isupper line \<and> length line > 50 then header_loop rest line
         else if count_char (CHR ''.'') line > 3 then header_loop rest line
         else True)
      else header_loop rest line)"

definition is_section_header :: "string \<Rightarrow> bool" where
  "is_section_header line =
     (if length line < 3 \<or> length line > 150 then False else header_loop patterns line)"

section \<open>Meaningful title\<close>

text \<open>
  \<^verbatim>\<open>
  def _extract_meaningful_title(self, text: str) -> str:
      sentences = re.split(r'[.!?]', text)
      for sentence in sentences[:3]:
          sentence = sentence.strip()
          if 20 <= len(sentence) <= 100:
              return sentence
      lines = text.split('\n')
      for line in lines:
          line = line.strip()
          if 10 <= len(line) <= 100:
              return line
      words = text.split()[:10]
      return ' '.join(words) + ('...' if len(text.split()) > 10 else '')
  \<close>
\<close>

definition is_terminator :: "char \<Rightarrow> bool" where
  "is_terminator c = (c = CHR ''.'' \<or> c = CHR ''!'' \<or> c = CHR ''?'')"

definition extract_meaningful_title :: "string \<Rightarrow> string" where
  "extract_meaningful_title text =
     (let sentences = split_on is_terminator text in
      case find (\<lambda>sentence. 20 \<le> length sentence \<and> length sentence \<le> 100)
             (map strip (take 3 sentences)) of
        Some sentence \<Rightarrow> sentence
      | None \<Rightarrow>
         (case find (\<lambda>line. 10 \<le> length line \<and> length line \<le> 100)
                 (map strip (split_lines text)) of
            Some line \<Rightarrow> line
          | None \<Rightarrow>
             (let words = take 10 (split_ws text) in
              join '' '' words @ (if length (split_ws text) > 10 then ''...'' else []))))"

section \<open>Section segmenter\<close>

text \<open>
  A section of a page is the dictionary \<^verbatim>\<open>{'title': ..., 'text': ...}\<close>.
  \<^verbatim>\<open>
  def _extract_sections_from_page(self, text: str) -> List[Dict]:
      sections = []
      lines = text.split('\n')
      current = {'title': '', 'text': ''}
      for line in lines:
          line = line.strip()
          if not line:
              continue
          if self._is_section_header(line):
              if current['text'].strip():
                  sections.append({
                      'title': current['title'] or line[:100],
                      'text': current['text'].strip()
                  })
              current = {'title': line, 'text': ''}
          else:
              current['text'] += line + ' '
      if current['text'].strip():
          sections.append({
              'title': current['title'] or 'Content',
              'text': current['text'].strip()
          })
      if not sections and text.strip():
          title = self._extract_meaningful_title(text)
          sections.append({'title': title, 'text': text.strip()})
      return sections
  \<close>
  The loop carries \<^verbatim>\<open>sections\<close> and \<^verbatim>\<open>current\<close>, here the pair of the current title
  and the current text.
\<close>

record page_section =
  sec_title :: string
  sec_text :: string

fun segment_loop ::
  "string list \<Rightarrow> page_section list \<Rightarrow> string \<times> string \<Rightarrow> page_section list \<times> (string \<times> string)"
where
  "segment_loop [] sections current = (sections, current)"
| "segment_loop (raw # rest) sections (cur_title, cur_text) =
     (if strip raw = [] then segment_loop rest sections (cur_title, cur_text)
      else if is_section_header (strip raw) then
        segment_loop rest
          (if strip cur_text \<noteq> []
           then sections @
             [\<lparr>sec_title = (if cur_title \<noteq> [] then cur_title else take 100 (strip raw)),
               sec_text = strip cur_text\<rparr>]
           else sections)
          (strip raw, [])
      else segment_loop rest sections (cur_title, cur_text @ strip raw @ '' ''))"

definition final_flush :: "page_section list \<times> (string \<times> string) \<Rightarrow> page_section list" where
  "final_flush st =
     (case st of (sections, (cur_title, cur_text)) \<Rightarrow>
        if strip cur_text \<noteq> []
        then sections @
          [\<lparr>sec_title = (if cur_title \<noteq> [] then cur_title else ''Content''),
            sec_text = strip cur_text\<rparr>]
        else sections)"

definition extract_sections_from_page :: "string \<Rightarrow> page_section list" where
  "extract_sections_from_page text =
     (let sections = final_flush (segment_loop (split_lines text) [] ([], [])) in
      if sections = [] \<and> strip text \<noteq> []
      then sections @ [\<lparr>sec_title = extract_meaningful_title text, sec_text = strip text\<rparr>]
      else sections)"

section \<open>Content classifier\<close>

text \<open>
  \<^verbatim>\<open>_classify_content_type\<close>: the lower-cased text is searched for the keywords in a
  fixed order, and the first hit decides.
\<close>

definition classify_content_type :: "string \<Rightarrow> string" where
  "classify_content_type text0 =
     (let text = str_lower text0 in
      if contains ''abstract'' text \<or> contains ''summary'' text then ''abstract''
      else if contains ''introduction'' text \<or> contains ''background'' text then ''introduction''
      else if contains ''method'' text \<or> contains ''approach'' text then ''methodology''
      else if contains ''result'' text \<or> contains ''finding'' text then ''results''
      else if contains ''conclusion'' text \<or> contains ''discussion'' text then ''conclusion''
      else if contains ''reference'' text \<or> contains ''bibliography'' text then ''references''
      else ''content'')"

section \<open>Query builder\<close>

text \<open>
  The persona and the job are dictionaries read with \<^verbatim>\<open>.get(key, default)\<close>: a key
  may be absent, and a field is an option.
  \<^verbatim>\<open>
  def create_persona_query(self, persona: Dict, job: Dict) -> str:
      role = persona.get('role', '')
      expertise = persona.get('expertise_areas', [])
      focus = persona.get('focus_areas', [])
      task = job.get('task', '')
      requirements = job.get('requirements', [])
      query_parts = [task]
      if expertise:
          query_parts.append(f"Expertise in: {', '.join(expertise)}")
      if focus:
          query_parts.append(f"Focus on: {', '.join(focus)}")
      if requirements:
          query_parts.append(f"Requirements: {', '.join(requirements)}")
      query_parts.append(f"Role: {role}")
      return " | ".join(query_parts)
  \<close>
\<close>

record persona =
  role :: "string option"
  expertise_areas :: "string list option"
  focus_areas :: "string list option"

record job =
  task :: "string option"
  requirements :: "string list option"

definition get_or :: "'a option \<Rightarrow> 'a \<Rightarrow> 'a" where
  "get_or v d = (case v of None \<Rightarrow> d | Some x \<Rightarrow> x)"

definition append_if :: "bool \<Rightarrow> string list \<Rightarrow> string \<Rightarrow> string list" where
  "append_if b query_parts part = (if b then query_parts @ [part] else query_parts)"

definition create_persona_query :: "persona \<Rightarrow> job \<Rightarrow> string" where
  "create_persona_query p j =
     (let role_v = get_or (role p) [];
          expertise = get_or (expertise_areas p) [];
          focus = get_or (focus_areas p) [];
          task_v = get_or (task j) [];
          requirements_v = get_or (requirements j) [];
          parts0 = [task_v];
          parts1 = append_if (expertise \<noteq> []) parts0 (''Expertise in: '' @ join '', '' expertise);
          parts2 = append_if (focus \<noteq> []) parts1 (''Focus on: '' @ join '', '' focus);
          parts3 = append_if (requirements_v \<noteq> []) parts2
                     (''Requirements: '' @ join '', '' requirements_v);
          parts4 = parts3 @ [''Role: '' @ role_v]
      in join '' | '' parts4)"

section \<open>Relevance ranker\<close>

text \<open>
  A pooled section is the dictionary built by \<^verbatim>\<open>extract_text_chunks\<close>; the ranker
  reads its \<^verbatim>\<open>content_type\<close> with \<^verbatim>\<open>.get('content_type', 'content')\<close>, so that field
  is an option. A ranked section is a copy with two more keys.
\<close>

record chunk =
  document :: string
  chunk_text :: string
  section_title :: string
  page :: nat
  content_type :: "string option"

record ranked_chunk =
  r_document :: string
  r_text :: string
  r_section_title :: string
  r_page :: nat
  r_content_type :: "string option"
  importance_rank :: nat
  relevance_score :: real

definition make_ranked :: "chunk \<Rightarrow> nat \<Rightarrow> real \<Rightarrow> ranked_chunk" where
  "make_ranked s rank score =
     \<lparr>r_document = document s, r_text = chunk_text s, r_section_title = section_title s,
      r_page = page s, r_content_type = content_type s,
      importance_rank = rank, relevance_score = score\<rparr>"

text \<open>
  The weight table of \<^verbatim>\<open>rank_sections\<close>, looked up with default 1.0.
  Similarities and weights are taken as exact real numbers: the rounding of the tensor
  arithmetic is not modelled, and a similarity is assumed to be a number (not a NaN).
\<close>

definition weight_table :: "(string \<times> real) list" where
  "weight_table =
     [(''abstract'', 12 / 10), (''introduction'', 11 / 10), (''methodology'', 13 / 10),
      (''results'', 13 / 10), (''conclusion'', 12 / 10), (''references'', 5 / 10),
      (''content'', 1)]"

definition weight_of :: "string option \<Rightarrow> real" where
  "weight_of ct = get_or (map_of weight_table (get_or ct ''content'')) 1"

text \<open>
  The embedding model is external. When loaded it gives, for the section texts and the
  query, the row of cosine similarities (\<^verbatim>\<open>encode\<close>, \<^verbatim>\<open>encode\<close>,
  \<^verbatim>\<open>pytorch_cos_sim(...)[0]\<close>); \<^verbatim>\<open>self.model\<close> is \<^verbatim>\<open>None\<close> until then.
\<close>

type_synonym embedding_model = "string list \<Rightarrow> string \<Rightarrow> real list"

text \<open>The slice \<^verbatim>\<open>xs[:k]\<close>; a negative \<^verbatim>\<open>k\<close> counts from the end.\<close>

definition py_prefix :: "int \<Rightarrow> 'a list \<Rightarrow> 'a list" where
  "py_prefix k xs = (if 0 \<le> k then take (nat k) xs else take (length xs - nat (- k)) xs)"

text \<open>
  \<^verbatim>\<open>
  def rank_sections(self, sections: List[Dict], query: str) -> List[Dict]:
      if not sections or not self.model:
          return []
      texts = [s['text'] for s in sections]
      embeddings = self.model.encode(texts, convert_to_tensor=True)
      query_embedding = self.model.encode(query, convert_to_tensor=True)
      similarities = util.pytorch_cos_sim(query_embedding, embeddings)[0]
      weighted_scores = []
      for i, (score, section) in enumerate(zip(similarities, sections)):
          weight = {...}.get(section.get('content_type', 'content'), 1.0)
          weighted_scores.append((score * weight, i))
      weighted_scores.sort(reverse=True, key=lambda x: x[0])
      ranked = []
      for rank, (_, idx) in enumerate(weighted_scores[:self.top_k]):
          section = sections[idx].copy()
          section['importance_rank'] = rank + 1
          section['relevance_score'] = float(similarities[idx])
          ranked.append(section)
      return ranked
  \<close>
  \<^verbatim>\<open>list.sort(reverse=True, key=...)\<close> reverses the list, sorts it by a stable ascending
  sort on the key, and reverses the result.
\<close>

definition weighted_scores :: "real list \<Rightarrow> chunk list \<Rightarrow> (real \<times> nat) list" where
  "weighted_scores similarities sections =
     map (\<lambda>(i, (score, section)). (score * weight_of (content_type section), i))
       (enumerate 0 (zip similarities sections))"

definition sort_reverse :: "(real \<times> nat) list \<Rightarrow> (real \<times> nat) list" where
  "sort_reverse ws = rev (sort_key fst (rev ws))"

definition selected :: "int \<Rightarrow> real list \<Rightarrow> chunk list \<Rightarrow> (real \<times> nat) list" where
  "selected top_k similarities sections =
     py_prefix top_k (sort_reverse (weighted_scores similarities sections))"

definition rank_sections ::
  "int \<Rightarrow> embedding_model option \<Rightarrow> chunk list \<Rightarrow> string \<Rightarrow> ranked_chunk list"
where
  "rank_sections top_k model sections query =
     (case model of
        None \<Rightarrow> []
      | Some similarity \<Rightarrow>
         if sections = [] then []
         else
           (let similarities = similarity (map chunk_text sections) query in
            map (\<lambda>(rank, (w, idx)). make_ranked (sections ! idx) (rank + 1) (similarities ! idx))
              (enumerate 0 (selected top_k similarities sections))))"

text \<open>
  Two notions for stating the ranker's properties: the weighted score of the section
  at index \<open>i\<close> of the pool, and the indices of the selected sections in ranked order
  (the second components of \<^verbatim>\<open>weighted_scores[:self.top_k]\<close>).
\<close>

definition weighted :: "real list \<Rightarrow> chunk list \<Rightarrow> nat \<Rightarrow> real" where
  "weighted similarities sections i = similarities ! i * weight_of (content_type (sections ! i))"

definition ranked_order :: "int \<Rightarrow> real list \<Rightarrow> chunk list \<Rightarrow> nat list" where
  "ranked_order top_k similarities sections = map snd (selected top_k similarities sections)"

text \<open>A model that answers every request with one given row of similarities.\<close>

definition fixed_similarities :: "real list \<Rightarrow> embedding_model" where
  "fixed_similarities sims texts query = sims"

text \<open>Four pooled sections used as examples.\<close>

definition refs_sec :: chunk where
  "refs_sec = \<lparr>document = ''a.pdf'', chunk_text = ''list of works'',
     section_title = ''References'', page = 9, content_type = Some ''references''\<rparr>"

definition meth_sec :: chunk where
  "meth_sec = \<lparr>document = ''a.pdf'', chunk_text = ''how it was done'',
     section_title = ''Methods'', page = 3, content_type = Some ''methodology''\<rparr>"

definition abs_sec :: chunk where
  "abs_sec = \<lparr>document = ''b.pdf'', chunk_text = ''what the paper says'',
     section_title = ''Abstract'', page = 1, content_type = Some ''abstract''\<rparr>"

definition concl_sec :: chunk where
  "concl_sec = \<lparr>document = ''b.pdf'', chunk_text = ''what was learned'',
     section_title = ''Conclusion'', page = 7, content_type = Some ''conclusion''\<rparr>"

section \<open>Facts about the string operations\<close>

lemma strip_subset: "set (strip s) \<subseteq> set s"
  by (auto simp: strip_def dest!: set_dropWhileD)

lemma dropWhile_all: "(\<forall>c\<in>set (dropWhile P s). P c) \<longleftrightarrow> dropWhile P s = []"
proof
  assume a: "\<forall>c\<in>set (dropWhile P s). P c"
  show "dropWhile P s = []"
  proof (rule ccontr)
    assume n: "dropWhile P s \<noteq> []"
    then have "\<not> P (hd (dropWhile P s))" by (rule hd_dropWhile)
    moreover have "hd (dropWhile P s) \<in> set (dropWhile P s)" using n by (rule hd_in_set)
    ultimately show False using a by blast
  qed
next
  assume e: "dropWhile P s = []"
  show "\<forall>c\<in>set (dropWhile P s). P c" unfolding e by simp
qed

lemma strip_nonempty_iff: "strip s \<noteq> [] \<longleftrightarrow> (\<exists>c\<in>set s. \<not> isspace c)"
proof -
  have "strip s = [] \<longleftrightarrow> (\<forall>c\<in>set (dropWhile isspace s). isspace c)"
    by (simp add: strip_def)
  also have "\<dots> \<longleftrightarrow> dropWhile isspace s = []" by (rule dropWhile_all)
  also have "\<dots> \<longleftrightarrow> (\<forall>c\<in>set s. isspace c)" by simp
  finally show ?thesis by blast
qed

lemma strip_has_nonspace: "strip s \<noteq> [] \<Longrightarrow> \<exists>c\<in>set (strip s). \<not> isspace c"
proof -
  assume n: "strip s \<noteq> []"
  let ?d = "dropWhile isspace (rev (dropWhile isspace s))"
  from n have d: "?d \<noteq> []" by (simp add: strip_def)
  then have "\<not> isspace (hd ?d)" by (rule hd_dropWhile)
  moreover have "hd ?d \<in> set (strip s)" using d by (simp add: strip_def)
  ultimately show ?thesis by blast
qed

lemma split_on_nonempty: "split_on p s \<noteq> []"
  by (induction s) (auto split: list.splits)

lemma split_on_no_sep_all: "\<forall>l\<in>set (split_on p s). \<forall>c\<in>set l. \<not> p c"
  by (induction s) (auto split: list.splits)

lemma split_on_no_sep: "l \<in> set (split_on p s) \<Longrightarrow> c \<in> set l \<Longrightarrow> \<not> p c"
  using split_on_no_sep_all by blast

lemma join_snoc: "xs \<noteq> [] \<Longrightarrow> join sep (xs @ [y]) = join sep xs @ sep @ y"
  by (induction sep xs rule: join.induct) auto

section \<open>The value of the filter\<close>

lemma filter_result:
  "is_meaningful_section text =
     Inr (\<not> (length (split_ws text) < 10
        \<or> (text \<noteq> [] \<and> (of_nat (count_char newline text) / of_nat (length text) :: rat) > 1 / 10)
        \<or> (text \<noteq> [] \<and> (of_nat (length (filter isdigit text)) / of_nat (length text) :: rat) > 3 / 10)))"
  by (cases "text") (simp_all add: is_meaningful_section_def truediv_def exceeds_def Let_def)

section \<open>The section filter\<close>

text \<open>
  Claim C5. The filter drops a section exactly when its word count is below 10, or the
  text is non-empty and its share of newline characters exceeds 0.1, or the text is
  non-empty and its share of digits exceeds 0.3. The thresholds are strict. The filter
  returns \<open>Inr True\<close> for a kept section and \<open>Inr False\<close> for a dropped one.
\<close>

theorem filter_drop_iff:
  "is_meaningful_section text =
     Inr (\<not> (length (split_ws text) < 10
        \<or> (text \<noteq> [] \<and> (of_nat (count_char newline text) / of_nat (length text) :: rat) > 1 / 10)
        \<or> (text \<noteq> [] \<and> (of_nat (length (filter isdigit text)) / of_nat (length text) :: rat) > 3 / 10)))"
  by (rule filter_result)

text \<open>
  The boundary cases of the claim: nine words are dropped; ten words with no newline
  and no digit are kept; 6 digits among 20 characters (ratio 0.3) are kept; 31 digits
  among 100 characters (ratio 0.31) are dropped.
\<close>

theorem filter_drop_iff_witness:
  "is_meaningful_section ''a b c d e f g h i'' = Inr False
   \<and> is_meaningful_section ''a b c d e f g h i j'' = Inr True
   \<and> is_meaningful_section ''11 1 1 1 1 a b c d e'' = Inr True
   \<and> is_meaningful_section
       (''a b c d e f g h i '' @ replicate 31 (CHR ''1'') @ replicate 51 (CHR ''x'')) = Inr False"
  unfolding filter_drop_iff by code_simp

section \<open>The query builder\<close>

text \<open>
  Claim C9. The query string is the task, then \<open>Expertise in:\<close> with the expertise
  areas when there are any, then \<open>Focus on:\<close> with the focus areas when there are any,
  then \<open>Requirements:\<close> with the requirements when there are any, then always
  \<open>Role:\<close> with the role, the parts separated by \<open>'' | ''\<close>. An absent field counts as
  empty. The lists are joined with a comma and a space.
\<close>

theorem query_assembly:
  "create_persona_query p j =
     get_or (task j) []
     @ (if get_or (expertise_areas p) [] \<noteq> []
        then '' | Expertise in: '' @ join '', '' (get_or (expertise_areas p) []) else [])
     @ (if get_or (focus_areas p) [] \<noteq> []
        then '' | Focus on: '' @ join '', '' (get_or (focus_areas p) []) else [])
     @ (if get_or (requirements j) [] \<noteq> []
        then '' | Requirements: '' @ join '', '' (get_or (requirements j) []) else [])
     @ '' | Role: '' @ get_or (role p) []"
  by (simp add: create_persona_query_def append_if_def Let_def join_snoc)

text \<open>The example of the claim: role Analyst, expertise finance, task Summarize risk.\<close>

theorem query_assembly_witness:
  "create_persona_query
     \<lparr>role = Some ''Analyst'', expertise_areas = Some [''finance''], focus_areas = None\<rparr>
     \<lparr>task = Some ''Summarize risk'', requirements = None\<rparr>
   = ''Summarize risk | Expertise in: finance | Role: Analyst''"
  unfolding query_assembly by (simp add: get_or_def)

section \<open>What the pattern items match\<close>

lemma re_match_Once: "re_match (Once p # r) s \<longleftrightarrow> (\<exists>c ys. s = c # ys \<and> p c \<and> re_match r ys)"
  by (cases s) auto

lemma re_match_Many0:
  "re_match (Many0 p # r) s \<longleftrightarrow> (\<exists>xs ys. s = xs @ ys \<and> list_all p xs \<and> re_match r ys)"
proof (induction s)
  case Nil
  then show ?case by simp
next
  case (Cons c cs)
  show ?case
  proof
    assume "re_match (Many0 p # r) (c # cs)"
    then consider "re_match r (c # cs)" | "p c" "re_match (Many0 p # r) cs" by auto
    then show "\<exists>xs ys. c # cs = xs @ ys \<and> list_all p xs \<and> re_match r ys"
    proof cases
      case 1
      then have "c # cs = [] @ (c # cs) \<and> list_all p [] \<and> re_match r (c # cs)" by simp
      then show ?thesis by blast
    next
      case 2
      with Cons.IH obtain xs ys where "cs = xs @ ys" "list_all p xs" "re_match r ys" by blast
      with 2 have "c # cs = (c # xs) @ ys \<and> list_all p (c # xs) \<and> re_match r ys" by simp
      then show ?thesis by blast
    qed
  next
    assume "\<exists>xs ys. c # cs = xs @ ys \<and> list_all p xs \<and> re_match r ys"
    then obtain xs ys where e: "c # cs = xs @ ys" "list_all p xs" "re_match r ys" by blast
    show "re_match (Many0 p # r) (c # cs)"
    proof (cases xs)
      case Nil
      with e have "re_match r (c # cs)" by simp
      then show ?thesis by simp
    next
      case (Cons x xs')
      with e have "x = c" "cs = xs' @ ys" "p c" "list_all p xs'" by auto
      with e Cons.IH show ?thesis by auto
    qed
  qed
qed

lemma re_match_Many1:
  "re_match (Many1 p # r) s \<longleftrightarrow>
     (\<exists>xs ys. s = xs @ ys \<and> xs \<noteq> [] \<and> list_all p xs \<and> re_match r ys)"
proof (cases s)
  case Nil
  then show ?thesis by simp
next
  case (Cons c cs)
  show ?thesis
  proof
    assume "re_match (Many1 p # r) s"
    with Cons have "p c" "re_match (Many0 p # r) cs" by auto
    then obtain xs ys where "cs = xs @ ys" "list_all p xs" "re_match r ys"
      unfolding re_match_Many0 by blast
    with \<open>p c\<close> Cons have "s = (c # xs) @ ys \<and> c # xs \<noteq> [] \<and> list_all p (c # xs) \<and> re_match r ys"
      by simp
    then show "\<exists>xs ys. s = xs @ ys \<and> xs \<noteq> [] \<and> list_all p xs \<and> re_match r ys" by blast
  next
    assume "\<exists>xs ys. s = xs @ ys \<and> xs \<noteq> [] \<and> list_all p xs \<and> re_match r ys"
    then obtain xs ys where e: "s = xs @ ys" "xs \<noteq> []" "list_all p xs" "re_match r ys" by blast
    then obtain x xs' where x: "xs = x # xs'" by (cases xs) auto
    with e Cons have "x = c" "cs = xs' @ ys" "p c" "list_all p xs'" by auto
    with e have "re_match (Many0 p # r) cs" unfolding re_match_Many0 by blast
    with \<open>p c\<close> Cons show "re_match (Many1 p # r) s" by simp
  qed
qed

lemma re_match_Dollar: "re_match [Dollar] s \<longleftrightarrow> (s = [] \<or> s = [newline])"
  by simp

section \<open>The shapes of the five patterns\<close>

lemma isspace_newline: "isspace newline"
  by (simp add: isspace_def newline_def code_point_def)

lemma pattern1_shape:
  "re_match pattern1 line \<longleftrightarrow>
     (\<exists>c rest. line = c # rest \<and> is_AZ c \<and> rest \<noteq> []
        \<and> list_all (\<lambda>c. is_AZ c \<or> is_az c \<or> isspace c \<or> c = CHR ''&'' \<or> c = CHR ''-'') rest)"
  (is "?L \<longleftrightarrow> ?R")
proof
  assume ?L
  then obtain c xs ys where "line = c # xs @ ys" "is_AZ c" "xs \<noteq> []"
    "list_all (\<lambda>c. is_AZ c \<or> is_az c \<or> isspace c \<or> c = CHR ''&'' \<or> c = CHR ''-'') xs"
    "ys = [] \<or> ys = [newline]"
    unfolding pattern1_def re_match_Once re_match_Many1 re_match_Dollar by blast
  then show ?R using isspace_newline by auto
next
  assume ?R
  then obtain c rest where r: "line = c # rest" "is_AZ c" "rest \<noteq> []"
    "list_all (\<lambda>c. is_AZ c \<or> is_az c \<or> isspace c \<or> c = CHR ''&'' \<or> c = CHR ''-'') rest"
    by blast
  then have "rest = rest @ [] \<and> rest \<noteq> [] \<and>
    list_all (\<lambda>c. is_AZ c \<or> is_az c \<or> isspace c \<or> c = CHR ''&'' \<or> c = CHR ''-'') rest
    \<and> re_match [Dollar] []" by simp
  then have "re_match [Many1 (\<lambda>c. is_AZ c \<or> is_az c \<or> isspace c \<or> c = CHR ''&'' \<or> c = CHR ''-''), Dollar] rest"
    unfolding re_match_Many1 by blast
  with r show ?L by (simp add: pattern1_def)
qed

lemma pattern4_shape:
  "re_match pattern4 line \<longleftrightarrow> (line \<noteq> [] \<and> list_all (\<lambda>c. is_AZ c \<or> isspace c) line)"
  (is "?L \<longleftrightarrow> ?R")
proof
  assume ?L
  then obtain xs ys where "line = xs @ ys" "xs \<noteq> []" "list_all (\<lambda>c. is_AZ c \<or> isspace c) xs"
    "ys = [] \<or> ys = [newline]"
    unfolding pattern4_def re_match_Many1 re_match_Dollar by blast
  then show ?R using isspace_newline by auto
next
  assume ?R
  then have "line = line @ [] \<and> line \<noteq> [] \<and> list_all (\<lambda>c. is_AZ c \<or> isspace c) line
    \<and> re_match [Dollar] []" by simp
  then show ?L unfolding pattern4_def re_match_Many1 by blast
qed

lemma marker_shape:
  "re_match [Many1 d, Once is_dot, Many0 isspace, Once is_AZ] line \<longleftrightarrow>
     (\<exists>ds sp c rest. line = ds @ CHR ''.'' # sp @ c # rest \<and> ds \<noteq> [] \<and> list_all d ds
        \<and> list_all isspace sp \<and> is_AZ c)"
  (is "?L \<longleftrightarrow> ?R")
proof
  assume ?L
  then obtain xs ys where 1: "line = xs @ ys" "xs \<noteq> []" "list_all d xs"
      "re_match [Once is_dot, Many0 isspace, Once is_AZ] ys"
    unfolding re_match_Many1 by blast
  from 1(4) obtain c zs where 2: "ys = c # zs" "is_dot c"
      "re_match [Many0 isspace, Once is_AZ] zs"
    unfolding re_match_Once by blast
  from 2(3) obtain sp ws where 3: "zs = sp @ ws" "list_all isspace sp" "re_match [Once is_AZ] ws"
    unfolding re_match_Many0 by blast
  from 3(3) obtain c2 rest where 4: "ws = c2 # rest" "is_AZ c2"
    unfolding re_match_Once by blast
  from 1 2 3 4 have "line = xs @ CHR ''.'' # sp @ c2 # rest \<and> xs \<noteq> [] \<and> list_all d xs
      \<and> list_all isspace sp \<and> is_AZ c2"
    by (simp add: is_dot_def)
  then show ?R by blast
next
  assume ?R
  then obtain ds sp c rest where r: "line = ds @ CHR ''.'' # sp @ c # rest" "ds \<noteq> []"
      "list_all d ds" "list_all isspace sp" "is_AZ c"
    by blast
  have a: "re_match [Once is_AZ] (c # rest)" using r(5) by simp
  have "sp @ c # rest = sp @ (c # rest) \<and> list_all isspace sp \<and> re_match [Once is_AZ] (c # rest)"
    using a r(4) by simp
  then have b: "re_match [Many0 isspace, Once is_AZ] (sp @ c # rest)"
    unfolding re_match_Many0 by blast
  then have c: "re_match [Once is_dot, Many0 isspace, Once is_AZ] (CHR ''.'' # sp @ c # rest)"
    by (simp add: is_dot_def)
  have "line = ds @ (CHR ''.'' # sp @ c # rest) \<and> ds \<noteq> [] \<and> list_all d ds
      \<and> re_match [Once is_dot, Many0 isspace, Once is_AZ] (CHR ''.'' # sp @ c # rest)"
    using r c by simp
  then show ?L unfolding re_match_Many1 by blast
qed

lemma pattern2_shape:
  "re_match pattern2 line \<longleftrightarrow>
     (\<exists>ds sp c rest. line = ds @ CHR ''.'' # sp @ c # rest \<and> ds \<noteq> [] \<and> list_all isdigit ds
        \<and> list_all isspace sp \<and> is_AZ c)"
  unfolding pattern2_def by (rule marker_shape)

lemma pattern3_shape:
  "re_match pattern3 line \<longleftrightarrow>
     (\<exists>ds sp c rest. line = ds @ CHR ''.'' # sp @ c # rest \<and> ds \<noteq> []
        \<and> list_all (\<lambda>c. c = CHR ''I'' \<or> c = CHR ''V'' \<or> c = CHR ''X'') ds
        \<and> list_all isspace sp \<and> is_AZ c)"
  unfolding pattern3_def by (rule marker_shape)

lemma word_shape:
  "re_match (Once is_AZ # Many1 is_az # r) s \<longleftrightarrow>
     (\<exists>c w t. s = c # w @ t \<and> is_AZ c \<and> w \<noteq> [] \<and> list_all is_az w \<and> re_match r t)"
  (is "?L \<longleftrightarrow> ?R")
proof
  assume ?L
  then obtain c ys where 1: "s = c # ys" "is_AZ c" "re_match (Many1 is_az # r) ys"
    unfolding re_match_Once by blast
  from 1(3) obtain w t where 2: "ys = w @ t" "w \<noteq> []" "list_all is_az w" "re_match r t"
    unfolding re_match_Many1 by blast
  from 1 2 have "s = c # w @ t \<and> is_AZ c \<and> w \<noteq> [] \<and> list_all is_az w \<and> re_match r t" by simp
  then show ?R by blast
next
  assume ?R
  then obtain c w t where q: "s = c # w @ t" "is_AZ c" "w \<noteq> []" "list_all is_az w" "re_match r t"
    by blast
  then have "w @ t = w @ t \<and> w \<noteq> [] \<and> list_all is_az w \<and> re_match r t" by simp
  then have "re_match (Many1 is_az # r) (w @ t)" unfolding re_match_Many1 by blast
  with q show ?L by simp
qed

lemma pattern5_shape:
  "re_match pattern5 line \<longleftrightarrow>
     (\<exists>c1 w1 sp c2 w2 rest. line = c1 # w1 @ sp @ c2 # w2 @ rest \<and> is_AZ c1 \<and> w1 \<noteq> []
        \<and> list_all is_az w1 \<and> sp \<noteq> [] \<and> list_all isspace sp \<and> is_AZ c2 \<and> w2 \<noteq> []
        \<and> list_all is_az w2)"
  (is "?L \<longleftrightarrow> ?R")
proof
  assume ?L
  then obtain c1 w1 t where 1: "line = c1 # w1 @ t" "is_AZ c1" "w1 \<noteq> []" "list_all is_az w1"
      "re_match [Many1 isspace, Once is_AZ, Many1 is_az] t"
    unfolding pattern5_def word_shape by blast
  from 1(5) obtain sp u where 2: "t = sp @ u" "sp \<noteq> []" "list_all isspace sp"
      "re_match [Once is_AZ, Many1 is_az] u"
    unfolding re_match_Many1 by blast
  from 2(4) obtain c2 w2 rest where 3: "u = c2 # w2 @ rest" "is_AZ c2" "w2 \<noteq> []"
      "list_all is_az w2"
    unfolding word_shape by blast
  from 1 2 3 have "line = c1 # w1 @ sp @ c2 # w2 @ rest \<and> is_AZ c1 \<and> w1 \<noteq> []
        \<and> list_all is_az w1 \<and> sp \<noteq> [] \<and> list_all isspace sp \<and> is_AZ c2 \<and> w2 \<noteq> []
        \<and> list_all is_az w2" by simp
  then show ?R by blast
next
  assume ?R
  then obtain c1 w1 sp c2 w2 rest where q: "line = c1 # w1 @ sp @ c2 # w2 @ rest" "is_AZ c1"
      "w1 \<noteq> []" "list_all is_az w1" "sp \<noteq> []" "list_all isspace sp" "is_AZ c2" "w2 \<noteq> []"
      "list_all is_az w2"
    by blast
  have "c2 # w2 @ rest = c2 # w2 @ rest \<and> is_AZ c2 \<and> w2 \<noteq> [] \<and> list_all is_az w2
      \<and> re_match [] rest" using q by simp
  then have a: "re_match [Once is_AZ, Many1 is_az] (c2 # w2 @ rest)"
    unfolding word_shape by blast
  have "sp @ c2 # w2 @ rest = sp @ (c2 # w2 @ rest) \<and> sp \<noteq> [] \<and> list_all isspace sp
      \<and> re_match [Once is_AZ, Many1 is_az] (c2 # w2 @ rest)" using a q by simp
  then have b: "re_match [Many1 isspace, Once is_AZ, Many1 is_az] (sp @ c2 # w2 @ rest)"
    unfolding re_match_Many1 by blast
  have "line = c1 # w1 @ (sp @ c2 # w2 @ rest) \<and> is_AZ c1 \<and> w1 \<noteq> [] \<and> list_all is_az w1
      \<and> re_match [Many1 isspace, Once is_AZ, Many1 is_az] (sp @ c2 # w2 @ rest)"
    using b q by simp
  then show ?L unfolding pattern5_def word_shape by blast
qed

lemma header_loop_iff:
  "header_loop ps line \<longleftrightarrow>
     ((\<exists>p\<in>set ps. re_match p line) \<and> \<not> (str_isupper line \<and> length line > 50)
       \<and> \<not> count_char (CHR ''.'') line > 3)"
  by (induction ps) auto

lemma header_iff_patterns:
  "is_section_header line \<longleftrightarrow>
     (3 \<le> length line \<and> length line \<le> 150
      \<and> (re_match pattern1 line \<or> re_match pattern2 line \<or> re_match pattern3 line
           \<or> re_match pattern4 line \<or> re_match pattern5 line)
      \<and> \<not> (str_isupper line \<and> length line > 50)
      \<and> \<not> count_char (CHR ''.'') line > 3)"
  unfolding is_section_header_def header_loop_iff patterns_def by auto

section \<open>Which lines are headers\<close>

text \<open>
  Claim C7. A line is a section header exactly when its length is between 3 and 150,
  it has one of the five shapes, it is not an all-uppercase line of more than 50
  characters, and it has at most 3 periods. The shapes, in the order of the patterns:
  an uppercase letter followed by one or more letters, whitespace characters,
  \<open>&\<close> or \<open>-\<close>, up to the end of the line; digits, a period, optional whitespace
  and an uppercase letter at the start of the line; the same with the letters
  \<open>I\<close>, \<open>V\<close>, \<open>X\<close> for the digits; a line of uppercase letters and whitespace only;
  two capitalised words (an uppercase letter and one or more lowercase letters each)
  separated by whitespace at the start of the line.
\<close>

theorem header_iff:
  "is_section_header line \<longleftrightarrow>
     (3 \<le> length line \<and> length line \<le> 150
      \<and> ((\<exists>c rest. line = c # rest \<and> is_AZ c \<and> rest \<noteq> []
             \<and> list_all (\<lambda>c. is_AZ c \<or> is_az c \<or> isspace c \<or> c = CHR ''&'' \<or> c = CHR ''-'') rest)
         \<or> (\<exists>ds sp c rest. line = ds @ CHR ''.'' # sp @ c # rest \<and> ds \<noteq> []
             \<and> list_all isdigit ds \<and> list_all isspace sp \<and> is_AZ c)
         \<or> (\<exists>ds sp c rest. line = ds @ CHR ''.'' # sp @ c # rest \<and> ds \<noteq> []
             \<and> list_all (\<lambda>c. c = CHR ''I'' \<or> c = CHR ''V'' \<or> c = CHR ''X'') ds
             \<and> list_all isspace sp \<and> is_AZ c)
         \<or> (line \<noteq> [] \<and> list_all (\<lambda>c. is_AZ c \<or> isspace c) line)
         \<or> (\<exists>c1 w1 sp c2 w2 rest. line = c1 # w1 @ sp @ c2 # w2 @ rest \<and> is_AZ c1
             \<and> w1 \<noteq> [] \<and> list_all is_az w1 \<and> sp \<noteq> [] \<and> list_all isspace sp \<and> is_AZ c2
             \<and> w2 \<noteq> [] \<and> list_all is_az w2))
      \<and> \<not> (str_isupper line \<and> 50 < length line)
      \<and> \<not> 3 < count_char (CHR ''.'') line)"
  unfolding header_iff_patterns pattern1_shape pattern2_shape pattern3_shape pattern4_shape
    pattern5_shape
  by (rule refl)

text \<open>
  Examples: \<open>Introduction\<close> is a header; 51 letters \<open>A\<close> match the fourth pattern
  and are rejected as a long all-uppercase line, 50 are accepted; \<open>1. A.B.C.D\<close>
  matches the second pattern and is rejected for its 4 periods, \<open>1. A.B.C\<close> is
  accepted; \<open>hello world\<close> has none of the shapes; \<open>Ab\<close> is too short.
\<close>

theorem header_iff_witness:
  "is_section_header ''Introduction''
   \<and> re_match pattern4 (replicate 51 (CHR ''A''))
   \<and> \<not> is_section_header (replicate 51 (CHR ''A''))
   \<and> is_section_header (replicate 50 (CHR ''A''))
   \<and> re_match pattern2 ''1. A.B.C.D''
   \<and> \<not> is_section_header ''1. A.B.C.D''
   \<and> is_section_header ''1. A.B.C''
   \<and> \<not> is_section_header ''hello world''
   \<and> \<not> is_section_header ''Ab''"
proof -
  have a: "is_section_header ''Introduction''" by code_simp
  have b: "re_match pattern4 (replicate 51 (CHR ''A''))" by code_simp
  have c: "str_isupper (replicate 51 (CHR ''A'')) \<and> 50 < length (replicate 51 (CHR ''A''))"
    by code_simp
  from header_iff [of "replicate 51 (CHR ''A'')"] c
  have d: "\<not> is_section_header (replicate 51 (CHR ''A''))" by blast
  have e: "is_section_header (replicate 50 (CHR ''A''))" by code_simp
  have f: "re_match pattern2 ''1. A.B.C.D''" by code_simp
  have g: "3 < count_char (CHR ''.'') ''1. A.B.C.D''" by code_simp
  from header_iff [of "''1. A.B.C.D''"] g
  have h: "\<not> is_section_header ''1. A.B.C.D''" by blast
  have i: "is_section_header ''1. A.B.C''" by code_simp
  have j: "\<not> is_section_header ''hello world''" by code_simp
  have k: "\<not> 3 \<le> length ''Ab''" by simp
  from header_iff [of "''Ab''"] k have l: "\<not> is_section_header ''Ab''" by blast
  from a b d e f h i j l show ?thesis by blast
qed

section \<open>Facts about the segmenter loop\<close>

lemma nonspace_strip_append:
  "strip l \<noteq> [] \<Longrightarrow> strip (x @ strip l @ y) \<noteq> []"
  using strip_has_nonspace [of l] by (auto simp: strip_nonempty_iff)

lemma segment_loop_no_header:
  "\<forall>l\<in>set lines. \<not> is_section_header (strip l) \<Longrightarrow>
   segment_loop lines secs (t, x) =
     (secs, (t, x @ concat (map (\<lambda>l. strip l @ '' '') (filter (\<lambda>l. strip l \<noteq> []) lines))))"
  by (induction lines arbitrary: x) auto

lemma segment_loop_all_headers:
  "\<forall>l\<in>set lines. strip l \<noteq> [] \<longrightarrow> is_section_header (strip l) \<Longrightarrow>
   \<exists>t'. segment_loop lines [] (t, []) = ([], (t', []))"
  by (induction lines arbitrary: t) (auto simp: strip_def)

lemma final_flush_nonempty:
  "secs \<noteq> [] \<or> strip x \<noteq> [] \<or> (\<exists>l\<in>set lines. strip l \<noteq> [] \<and> \<not> is_section_header (strip l))
   \<Longrightarrow> final_flush (segment_loop lines secs (t, x)) \<noteq> []"
proof (induction lines arbitrary: secs t x)
  case Nil
  then show ?case by (auto simp: final_flush_def)
next
  case (Cons raw rest)
  show ?case
  proof (cases "strip raw = []")
    case True
    with Cons.prems have "secs \<noteq> [] \<or> strip x \<noteq> [] \<or>
        (\<exists>l\<in>set rest. strip l \<noteq> [] \<and> \<not> is_section_header (strip l))" by auto
    from Cons.IH [OF this] True show ?thesis by simp
  next
    case False
    show ?thesis
    proof (cases "is_section_header (strip raw)")
      case True
      let ?secs' = "if strip x \<noteq> []
           then secs @ [\<lparr>sec_title = (if t \<noteq> [] then t else take 100 (strip raw)),
                          sec_text = strip x\<rparr>] else secs"
      from Cons.prems True have "?secs' \<noteq> [] \<or> strip [] \<noteq> [] \<or>
        (\<exists>l\<in>set rest. strip l \<noteq> [] \<and> \<not> is_section_header (strip l))" by auto
      from Cons.IH [OF this, of "strip raw"] True False show ?thesis by simp
    next
      case h: False
      from False have "strip (x @ strip raw @ '' '') \<noteq> []" by (rule nonspace_strip_append)
      then have "secs \<noteq> [] \<or> strip (x @ strip raw @ '' '') \<noteq> [] \<or>
        (\<exists>l\<in>set rest. strip l \<noteq> [] \<and> \<not> is_section_header (strip l))" by simp
      from Cons.IH [OF this, of t] h False show ?thesis by simp
    qed
  qed
qed

lemma newline_not_in_strip: "newline \<notin> set s \<Longrightarrow> newline \<notin> set (strip s)"
  using strip_subset by blast

lemma final_flush_no_newline:
  "\<forall>l\<in>set lines. newline \<notin> set l \<Longrightarrow> \<forall>s\<in>set secs. newline \<notin> set (sec_text s) \<Longrightarrow>
   newline \<notin> set x \<Longrightarrow>
   \<forall>s\<in>set (final_flush (segment_loop lines secs (t, x))). newline \<notin> set (sec_text s)"
proof (induction lines arbitrary: secs t x)
  case Nil
  then show ?case by (auto simp: final_flush_def dest: newline_not_in_strip)
next
  case (Cons raw rest)
  have r: "newline \<notin> set (strip raw)" using Cons.prems(1) by (simp add: newline_not_in_strip)
  have sp: "newline \<notin> set '' ''" by (simp add: newline_def)
  have sx: "newline \<notin> set (strip x)" using Cons.prems(3) by (rule newline_not_in_strip)
  have rest: "\<forall>l\<in>set rest. newline \<notin> set l" using Cons.prems(1) by simp
  show ?case
  proof (cases "strip raw = []")
    case True
    from Cons.IH [OF rest Cons.prems(2) Cons.prems(3)] True show ?thesis by simp
  next
    case False
    show ?thesis
    proof (cases "is_section_header (strip raw)")
      case True
      let ?secs' = "if strip x \<noteq> []
           then secs @ [\<lparr>sec_title = (if t \<noteq> [] then t else take 100 (strip raw)),
                          sec_text = strip x\<rparr>] else secs"
      have a: "\<forall>s\<in>set ?secs'. newline \<notin> set (sec_text s)" using Cons.prems(2) sx by auto
      have b: "newline \<notin> set ([]::string)" by simp
      from Cons.IH [OF rest a b, of "strip raw"] True False show ?thesis by simp
    next
      case h: False
      have c: "newline \<notin> set (x @ strip raw @ '' '')" using Cons.prems(3) r sp by simp
      from Cons.IH [OF rest Cons.prems(2) c, of t] h False show ?thesis by simp
    qed
  qed
qed

lemma final_flush_fields_nonempty:
  "\<forall>s\<in>set secs. sec_text s \<noteq> [] \<and> sec_title s \<noteq> [] \<Longrightarrow>
   \<forall>s\<in>set (final_flush (segment_loop lines secs (t, x))). sec_text s \<noteq> [] \<and> sec_title s \<noteq> []"
proof (induction lines arbitrary: secs t x)
  case Nil
  then show ?case by (auto simp: final_flush_def)
next
  case (Cons raw rest)
  show ?case
  proof (cases "strip raw = []")
    case True
    from Cons.IH [OF Cons.prems] True show ?thesis by simp
  next
    case False
    show ?thesis
    proof (cases "is_section_header (strip raw)")
      case True
      let ?secs' = "if strip x \<noteq> []
           then secs @ [\<lparr>sec_title = (if t \<noteq> [] then t else take 100 (strip raw)),
                          sec_text = strip x\<rparr>] else secs"
      have a: "\<forall>s\<in>set ?secs'. sec_text s \<noteq> [] \<and> sec_title s \<noteq> []"
        using Cons.prems False by auto
      from Cons.IH [OF a, of "strip raw" "[]"] True False show ?thesis by simp
    next
      case h: False
      from Cons.IH [OF Cons.prems, of t "x @ strip raw @ '' ''"] h False show ?thesis by simp
    qed
  qed
qed

lemma concat_split_on: "concat (split_on p s) = filter (\<lambda>c. \<not> p c) s"
  by (induction s) (auto split: list.splits)

lemma split_ws_nonempty: "strip s \<noteq> [] \<Longrightarrow> split_ws s \<noteq> []"
proof -
  assume "strip s \<noteq> []"
  then have "filter (\<lambda>c. \<not> isspace c) s \<noteq> []" by (auto simp: strip_nonempty_iff filter_empty_conv)
  then have "concat (split_on isspace s) \<noteq> []" by (simp add: concat_split_on)
  then show ?thesis by (auto simp: split_ws_def filter_empty_conv)
qed

lemma join_nonempty: "ws \<noteq> [] \<Longrightarrow> hd ws \<noteq> [] \<Longrightarrow> join sep ws \<noteq> []"
  by (induction sep ws rule: join.induct) auto

lemma title_nonempty: "strip s \<noteq> [] \<Longrightarrow> extract_meaningful_title s \<noteq> []"
proof -
  assume a: "strip s \<noteq> []"
  then have w: "split_ws s \<noteq> []" by (rule split_ws_nonempty)
  then have "hd (split_ws s) \<in> set (split_ws s)" by (rule hd_in_set)
  then have h: "hd (split_ws s) \<noteq> []" by (simp add: split_ws_def)
  have t: "take 10 (split_ws s) \<noteq> []" "hd (take 10 (split_ws s)) = hd (split_ws s)"
    using w by (cases "split_ws s"; simp)+
  have j: "join '' '' (take 10 (split_ws s)) \<noteq> []"
    using t h by (simp add: join_nonempty)
  show ?thesis
    unfolding extract_meaningful_title_def Let_def
    using j by (auto split: option.splits simp: find_Some_iff)
qed

section \<open>Pages without a header line\<close>

text \<open>
  Claim C1 says that a page with a non-empty line and no header line gives exactly one
  section, titled by \<^verbatim>\<open>_extract_meaningful_title\<close>. On the page \<open>hello world\<close> the one
  line is no header, the one section is titled \<open>Content\<close>, and the meaningful title
  of the page would be \<open>hello world\<close>.
\<close>

theorem no_header_title_counterexample:
  "split_lines ''hello world'' = [''hello world'']
   \<and> strip ''hello world'' = ''hello world''
   \<and> \<not> is_section_header ''hello world''
   \<and> extract_sections_from_page ''hello world''
       = [\<lparr>sec_title = ''Content'', sec_text = ''hello world''\<rparr>]
   \<and> extract_meaningful_title ''hello world'' = ''hello world''"
  by code_simp

text \<open>
  Claim C1, amended. A page with a non-empty line and no header line gives exactly one
  section; its title is the literal \<open>Content\<close> and its text is the trimmed non-empty
  lines, each followed by a space, the whole trimmed. The body lines reach the final
  flush of the loop, which titles an untitled section \<open>Content\<close>, so the list of
  sections is not empty and the meaningful-title branch is not taken.
\<close>

theorem no_header_page_content:
  assumes ne: "\<exists>l\<in>set (split_lines text). strip l \<noteq> []"
      and nh: "\<forall>l\<in>set (split_lines text). \<not> is_section_header (strip l)"
  shows "extract_sections_from_page text =
     [\<lparr>sec_title = ''Content'',
       sec_text = strip (concat (map (\<lambda>l. strip l @ '' '')
                    (filter (\<lambda>l. strip l \<noteq> []) (split_lines text))))\<rparr>]"
proof -
  let ?acc = "concat (map (\<lambda>l. strip l @ '' '') (filter (\<lambda>l. strip l \<noteq> []) (split_lines text)))"
  from ne obtain l where l: "l \<in> set (split_lines text)" "strip l \<noteq> []" by blast
  from strip_has_nonspace [OF l(2)] obtain c where c: "c \<in> set (strip l)" "\<not> isspace c" by blast
  have "c \<in> set ?acc" using l c by auto
  then have s: "strip ?acc \<noteq> []" using c(2) strip_nonempty_iff [of ?acc] by blast
  have "segment_loop (split_lines text) [] ([], []) = ([], ([], [] @ ?acc))"
    using nh by (rule segment_loop_no_header)
  then show ?thesis using s by (simp add: extract_sections_from_page_def final_flush_def)
qed


theorem no_header_page_content_witness:
  "extract_sections_from_page ''hello world'' =
     [\<lparr>sec_title = ''Content'',
       sec_text = strip (concat (map (\<lambda>l. strip l @ '' '')
                    (filter (\<lambda>l. strip l \<noteq> []) (split_lines ''hello world''))))\<rparr>]"
proof -
  have a: "\<exists>l\<in>set (split_lines ''hello world''). strip l \<noteq> []" by code_simp
  have b: "\<forall>l\<in>set (split_lines ''hello world''). \<not> is_section_header (strip l)" by code_simp
  from no_header_page_content [OF a b] show ?thesis .
qed

text \<open>
  The meaningful title is used on the other kind of page: one with some text whose
  non-empty lines are all headers. No body text is ever collected there, nothing is
  flushed, and the single section is the whole trimmed page under its meaningful title.
\<close>

lemma all_header_page_title:
  assumes "strip text \<noteq> []"
      and "\<forall>l\<in>set (split_lines text). strip l \<noteq> [] \<longrightarrow> is_section_header (strip l)"
  shows "extract_sections_from_page text =
     [\<lparr>sec_title = extract_meaningful_title text, sec_text = strip text\<rparr>]"
proof -
  from segment_loop_all_headers [OF assms(2), of "[]"]
  obtain t' where "segment_loop (split_lines text) [] ([], []) = ([], (t', []))" by blast
  then show ?thesis using assms(1)
    by (simp add: extract_sections_from_page_def final_flush_def strip_def)
qed


section \<open>The text handed to the filter\<close>

text \<open>
  \<^verbatim>\<open>extract_text_chunks\<close> hands \<^verbatim>\<open>section['text']\<close> of each section of the page to
  \<^verbatim>\<open>_is_meaningful_section\<close> unchanged. Claim C6 says that this text keeps the line
  breaks between the body lines. On a page of two body lines the section text is the
  two lines joined by a space; it has no newline character.
\<close>

theorem joined_lines_counterexample:
  "split_lines (''hello there'' @ [newline] @ ''world again'') = [''hello there'', ''world again'']
   \<and> \<not> is_section_header ''hello there'' \<and> \<not> is_section_header ''world again''
   \<and> extract_sections_from_page (''hello there'' @ [newline] @ ''world again'')
       = [\<lparr>sec_title = ''Content'', sec_text = ''hello there world again''\<rparr>]
   \<and> count_char newline ''hello there world again'' = 0"
  by code_simp

text \<open>
  Claim C6, amended. On every page with at least one non-empty line that is not a
  header, no section text handed to the filter contains a newline character: the
  segmenter trims each line and joins the lines with single spaces, so the newline
  count seen by the filter is 0.
\<close>

theorem section_text_without_newline:
  assumes "\<exists>l\<in>set (split_lines text). strip l \<noteq> [] \<and> \<not> is_section_header (strip l)"
  shows "\<forall>s\<in>set (extract_sections_from_page text).
           newline \<notin> set (sec_text s) \<and> count_char newline (sec_text s) = 0"
proof -
  let ?f = "final_flush (segment_loop (split_lines text) [] ([], []))"
  have ne: "?f \<noteq> []" using assms by (intro final_flush_nonempty) blast
  have "\<forall>l\<in>set (split_lines text). newline \<notin> set l"
    unfolding split_lines_def using split_on_no_sep by blast
  then have "\<forall>s\<in>set ?f. newline \<notin> set (sec_text s)"
    by (rule final_flush_no_newline) simp_all
  then show ?thesis using ne
    by (auto simp: extract_sections_from_page_def Let_def count_char_def filter_empty_conv)
qed


theorem section_text_without_newline_witness:
  "extract_sections_from_page (''hello there'' @ [newline] @ ''world again'')
     = [\<lparr>sec_title = ''Content'', sec_text = ''hello there world again''\<rparr>]
   \<and> list_all (\<lambda>s. newline \<notin> set (sec_text s) \<and> count_char newline (sec_text s) = 0)
       (extract_sections_from_page (''hello there'' @ [newline] @ ''world again''))"
proof -
  have a: "\<exists>l\<in>set (split_lines (''hello there'' @ [newline] @ ''world again'')).
       strip l \<noteq> [] \<and> \<not> is_section_header (strip l)" by code_simp
  have b: "extract_sections_from_page (''hello there'' @ [newline] @ ''world again'')
     = [\<lparr>sec_title = ''Content'', sec_text = ''hello there world again''\<rparr>]" by code_simp
  from section_text_without_newline [OF a] b show ?thesis
    unfolding list_all_iff by blast
qed

section \<open>The heuristics never fail\<close>

text \<open>
  Claim C10. Header detection, segmentation, title extraction and classification use
  only operations that Python defines on every string (\<^verbatim>\<open>split\<close>, \<^verbatim>\<open>strip\<close>,
  \<^verbatim>\<open>re.match\<close>, slices, \<^verbatim>\<open>lower\<close>, \<^verbatim>\<open>in\<close>, \<^verbatim>\<open>count\<close>, \<^verbatim>\<open>join\<close>), so their models
  are total functions with no error branch. The filter divides, and its model can
  return an error: it never does, the empty text is dropped, and every section the
  segmenter emits has a non-empty text and a non-empty title.
\<close>

theorem heuristics_total:
  "(\<exists>b. is_meaningful_section text = Inr b) \<and> is_meaningful_section [] = Inr False
   \<and> (\<forall>s\<in>set (extract_sections_from_page text). sec_text s \<noteq> [] \<and> sec_title s \<noteq> [])"
proof (intro conjI)
  show "\<exists>b. is_meaningful_section text = Inr b" unfolding filter_result by blast
  show "is_meaningful_section [] = Inr False" unfolding filter_result by (simp add: split_ws_def)
  have f: "\<forall>s\<in>set (final_flush (segment_loop (split_lines text) [] ([], []))).
      sec_text s \<noteq> [] \<and> sec_title s \<noteq> []"
    by (rule final_flush_fields_nonempty) simp
  show "\<forall>s\<in>set (extract_sections_from_page text). sec_text s \<noteq> [] \<and> sec_title s \<noteq> []"
    unfolding extract_sections_from_page_def Let_def using f title_nonempty by auto
qed


theorem heuristics_total_witness:
  "extract_sections_from_page (''hello there'' @ [newline] @ ''world again'')
     = [\<lparr>sec_title = ''Content'', sec_text = ''hello there world again''\<rparr>]
   \<and> (\<exists>b. is_meaningful_section (''hello there'' @ [newline] @ ''world again'') = Inr b)
   \<and> list_all (\<lambda>s. sec_text s \<noteq> [] \<and> sec_title s \<noteq> [])
       (extract_sections_from_page (''hello there'' @ [newline] @ ''world again''))"
proof -
  have a: "extract_sections_from_page (''hello there'' @ [newline] @ ''world again'')
     = [\<lparr>sec_title = ''Content'', sec_text = ''hello there world again''\<rparr>]" by code_simp
  from heuristics_total [of "''hello there'' @ [newline] @ ''world again''"] a
  show ?thesis unfolding list_all_iff by blast
qed

section \<open>Facts about the ranker\<close>

lemma insort_keeps_order:
  fixes x :: "real \<times> nat"
  shows "sorted_wrt (\<lambda>a b. fst a < fst b \<or> (fst a = fst b \<and> snd b < snd a)) zs \<Longrightarrow>
   \<forall>e\<in>set zs. snd e < snd x \<Longrightarrow>
   sorted_wrt (\<lambda>a b. fst a < fst b \<or> (fst a = fst b \<and> snd b < snd a)) (insort_key fst x zs)"
  by (induction zs) (auto simp: set_insort_key)

lemma sort_key_keeps_order:
  fixes ys :: "(real \<times> nat) list"
  shows "sorted_wrt (\<lambda>a b. snd b < snd a) ys \<Longrightarrow>
   sorted_wrt (\<lambda>a b. fst a < fst b \<or> (fst a = fst b \<and> snd b < snd a)) (sort_key fst ys)"
  by (induction ys) (auto intro!: insort_keeps_order)

lemma sort_reverse_sorted:
  "sorted_wrt (\<lambda>a b. snd a < snd b) ws \<Longrightarrow>
   sorted_wrt (\<lambda>a b. fst b < fst a \<or> (fst a = fst b \<and> snd a < snd b)) (sort_reverse ws)"
proof -
  assume "sorted_wrt (\<lambda>a b. snd a < snd b) ws"
  then have "sorted_wrt (\<lambda>a b. snd b < snd a) (rev ws)" by (simp add: sorted_wrt_rev)
  then have "sorted_wrt (\<lambda>a b. fst a < fst b \<or> (fst a = fst b \<and> snd b < snd a))
     (sort_key fst (rev ws))" by (rule sort_key_keeps_order)
  then have "sorted_wrt (\<lambda>b a. fst b < fst a \<or> (fst a = fst b \<and> snd a < snd b))
     (sort_key fst (rev ws))" by (rule sorted_wrt_mono_rel [rotated]) auto
  then show ?thesis by (simp add: sort_reverse_def sorted_wrt_rev)
qed

lemma weighted_scores_eq:
  "length sims = length sections \<Longrightarrow>
   weighted_scores sims sections = map (\<lambda>i. (weighted sims sections i, i)) [0..<length sections]"
  by (auto intro!: nth_equalityI simp: weighted_scores_def weighted_def nth_enumerate_eq)

lemma py_prefix_is_take: "\<exists>k. py_prefix K xs = take k xs"
  by (auto simp: py_prefix_def)

lemma selected_sorted:
  assumes "length sims = length sections"
  shows "sorted_wrt (\<lambda>a b. fst b < fst a \<or> (fst a = fst b \<and> snd a < snd b))
           (selected K sims sections)"
proof -
  have "sorted_wrt (\<lambda>a b. snd a < snd b) (weighted_scores sims sections)"
    by (simp add: weighted_scores_eq [OF assms] sorted_wrt_map)
  then have s: "sorted_wrt (\<lambda>a b. fst b < fst a \<or> (fst a = fst b \<and> snd a < snd b))
     (sort_reverse (weighted_scores sims sections))" by (rule sort_reverse_sorted)
  obtain k where "selected K sims sections = take k (sort_reverse (weighted_scores sims sections))"
    unfolding selected_def using py_prefix_is_take by blast
  with s show ?thesis by simp
qed

lemma selected_elems:
  assumes "length sims = length sections" "e \<in> set (selected K sims sections)"
  shows "snd e < length sections \<and> fst e = weighted sims sections (snd e)"
proof -
  obtain k where "selected K sims sections = take k (sort_reverse (weighted_scores sims sections))"
    unfolding selected_def using py_prefix_is_take by blast
  with assms(2) have "e \<in> set (sort_reverse (weighted_scores sims sections))"
    by (auto dest: in_set_takeD)
  then have "e \<in> set (weighted_scores sims sections)" by (simp add: sort_reverse_def)
  then show ?thesis by (auto simp: weighted_scores_eq [OF assms(1)])
qed

lemma selected_nth:
  assumes "length sims = length sections" "r < length (selected K sims sections)"
  shows "selected K sims sections ! r =
           (weighted sims sections (ranked_order K sims sections ! r), ranked_order K sims sections ! r)"
    and "ranked_order K sims sections ! r < length sections"
  using selected_elems [OF assms(1), of "selected K sims sections ! r" K] assms(2)
  by (simp_all add: ranked_order_def prod_eq_iff)

lemma length_selected:
  "length sims = length sections \<Longrightarrow> 0 \<le> K \<Longrightarrow>
   length (selected K sims sections) = min (nat K) (length sections)"
  by (simp add: selected_def py_prefix_def sort_reverse_def weighted_scores_eq)

lemma rank_sections_items:
  assumes "model = Some m" "sections \<noteq> []"
  shows "rank_sections K model sections query =
     map (\<lambda>(rank, idx). make_ranked (sections ! idx) (rank + 1)
            (m (map chunk_text sections) query ! idx))
       (enumerate 0 (ranked_order K (m (map chunk_text sections) query) sections))"
  using assms
  by (auto intro!: nth_equalityI
      simp: rank_sections_def ranked_order_def Let_def nth_enumerate_eq split: prod.splits)

lemma ranked_order_weights:
  assumes "length sims = length sections"
  shows "sorted_wrt (\<lambda>i j. weighted sims sections j \<le> weighted sims sections i)
           (ranked_order K sims sections)"
proof -
  have "sorted_wrt (\<lambda>a b. fst b \<le> fst a) (selected K sims sections)"
    using selected_sorted [OF assms, of K] by (rule sorted_wrt_mono_rel [rotated]) auto
  then have "sorted_wrt (\<lambda>a b. weighted sims sections (snd b) \<le> weighted sims sections (snd a))
      (selected K sims sections)"
    by (rule sorted_wrt_mono_rel [rotated]) (use selected_elems [OF assms] in auto)
  then show ?thesis by (simp add: ranked_order_def sorted_wrt_map)
qed

lemma ranked_order_ties:
  assumes "length sims = length sections"
    and "a < b" "b < length (ranked_order K sims sections)"
    and "weighted sims sections (ranked_order K sims sections ! a)
           = weighted sims sections (ranked_order K sims sections ! b)"
  shows "ranked_order K sims sections ! a < ranked_order K sims sections ! b"
proof -
  have lb: "b < length (selected K sims sections)" using assms(3) by (simp add: ranked_order_def)
  then have la: "a < length (selected K sims sections)" using assms(2) by simp
  from sorted_wrt_nth_less [OF selected_sorted [OF assms(1), of K] assms(2) lb]
  show ?thesis
    using selected_nth(1) [OF assms(1) la] selected_nth(1) [OF assms(1) lb] assms(4) by simp
qed

section \<open>The ranked list\<close>

text \<open>
  In the three theorems below the model is loaded, \<open>sims\<close> is the row of similarities
  it returns for the pooled sections and the query, one per section, and the pool is
  not empty. \<open>ranked_order\<close> lists the pool indices of the selected sections, best
  first; the ranked item at position \<open>r\<close> is the section at that index with rank
  \<open>r + 1\<close>.
\<close>

lemma ex_order2: "ranked_order 10 [9 / 10, 7 / 10] [refs_sec, meth_sec] = [1, 0]"
  by (simp add: ranked_order_def selected_def py_prefix_def sort_reverse_def
      weighted_scores_def weight_of_def weight_table_def get_or_def refs_sec_def meth_sec_def
      enumerate_eq_zip)

lemma ex_order3: "ranked_order 10 [1 / 2, 1 / 2, 1 / 2] [abs_sec, meth_sec, concl_sec] = [1, 0, 2]"
  by (simp add: ranked_order_def selected_def py_prefix_def sort_reverse_def
      weighted_scores_def weight_of_def weight_table_def get_or_def abs_sec_def meth_sec_def
      concl_sec_def enumerate_eq_zip)

text \<open>
  Claim C2. Every ranked item reports the raw similarity of its section as
  \<open>relevance_score\<close>, while the order of the items is that of the weighted scores:
  the similarity times the weight of the content type (abstract 1.2, introduction 1.1,
  methodology 1.3, results 1.3, conclusion 1.2, references 0.5, content 1.0, and 1.0
  for any other label or a missing one).
\<close>

theorem relevance_is_raw_similarity:
  assumes "model = Some m" and "sims = m (map chunk_text sections) query"
    and "length sims = length sections" and "sections \<noteq> []"
  shows "rank_sections K model sections query =
           map (\<lambda>(rank, idx). make_ranked (sections ! idx) (rank + 1) (sims ! idx))
             (enumerate 0 (ranked_order K sims sections))
         \<and> (\<forall>r < length (ranked_order K sims sections).
              relevance_score (rank_sections K model sections query ! r)
                = sims ! (ranked_order K sims sections ! r)
              \<and> ranked_order K sims sections ! r < length sections)
         \<and> sorted_wrt (\<lambda>i j. weighted sims sections j \<le> weighted sims sections i)
             (ranked_order K sims sections)
         \<and> (\<forall>i. weighted sims sections i
              = sims ! i * (case content_type (sections ! i) of
                  None \<Rightarrow> 1
                | Some l \<Rightarrow>
                   if l = ''abstract'' then 12 / 10 else if l = ''introduction'' then 11 / 10
                   else if l = ''methodology'' then 13 / 10 else if l = ''results'' then 13 / 10
                   else if l = ''conclusion'' then 12 / 10 else if l = ''references'' then 5 / 10
                   else 1))"
proof (intro conjI)
  show eq: "rank_sections K model sections query =
           map (\<lambda>(rank, idx). make_ranked (sections ! idx) (rank + 1) (sims ! idx))
             (enumerate 0 (ranked_order K sims sections))"
    unfolding assms(2) using assms(1) assms(4) by (rule rank_sections_items)
  show "\<forall>r < length (ranked_order K sims sections).
              relevance_score (rank_sections K model sections query ! r)
                = sims ! (ranked_order K sims sections ! r)
              \<and> ranked_order K sims sections ! r < length sections"
    using selected_nth(2) [OF assms(3), of _ K]
    by (simp add: eq nth_enumerate_eq make_ranked_def ranked_order_def)
  show "sorted_wrt (\<lambda>i j. weighted sims sections j \<le> weighted sims sections i)
             (ranked_order K sims sections)"
    using assms(3) by (rule ranked_order_weights)
  show "\<forall>i. weighted sims sections i
              = sims ! i * (case content_type (sections ! i) of
                  None \<Rightarrow> 1
                | Some l \<Rightarrow>
                   if l = ''abstract'' then 12 / 10 else if l = ''introduction'' then 11 / 10
                   else if l = ''methodology'' then 13 / 10 else if l = ''results'' then 13 / 10
                   else if l = ''conclusion'' then 12 / 10 else if l = ''references'' then 5 / 10
                   else 1)"
    by (simp add: weighted_def weight_of_def weight_table_def get_or_def split: option.splits)
qed

text \<open>
  The example of the claim: references with similarity 0.9 (weighted 0.45) and
  methodology with similarity 0.7 (weighted 0.91). Methodology is ranked first and
  reports 0.7.
\<close>

theorem relevance_is_raw_similarity_witness:
  "rank_sections 10 (Some (fixed_similarities [9 / 10, 7 / 10])) [refs_sec, meth_sec]
      ''Summarize risk | Role: Analyst''
     = [make_ranked meth_sec 1 (7 / 10), make_ranked refs_sec 2 (9 / 10)]
   \<and> weighted [9 / 10, 7 / 10] [refs_sec, meth_sec] 0 = 45 / 100
   \<and> weighted [9 / 10, 7 / 10] [refs_sec, meth_sec] 1 = 91 / 100"
proof -
  have h: "[9 / 10, 7 / 10] = fixed_similarities [9 / 10, 7 / 10]
      (map chunk_text [refs_sec, meth_sec]) ''Summarize risk | Role: Analyst''"
    by (simp add: fixed_similarities_def)
  have l: "length [9 / 10, 7 / 10 :: real] = length [refs_sec, meth_sec]" by simp
  have n: "[refs_sec, meth_sec] \<noteq> []" by simp
  note t = relevance_is_raw_similarity
    [where model = "Some (fixed_similarities [9 / 10, 7 / 10])" and m = "fixed_similarities [9 / 10, 7 / 10]"
      and sims = "[9 / 10, 7 / 10]" and sections = "[refs_sec, meth_sec]"
      and query = "''Summarize risk | Role: Analyst''" and K = 10, OF refl h l n]
  have w: "weighted [9 / 10, 7 / 10] [refs_sec, meth_sec] 0 = 45 / 100
     \<and> weighted [9 / 10, 7 / 10] [refs_sec, meth_sec] 1 = 91 / 100"
    using t by (simp add: refs_sec_def meth_sec_def)
  from t have "rank_sections 10 (Some (fixed_similarities [9 / 10, 7 / 10])) [refs_sec, meth_sec]
      ''Summarize risk | Role: Analyst''
     = [make_ranked meth_sec 1 (7 / 10), make_ranked refs_sec 2 (9 / 10)]"
    by (simp add: ex_order2 enumerate_eq_zip numeral_2_eq_2)
  with w show ?thesis by blast
qed

text \<open>
  Claim C3. Two selected sections with equal weighted scores appear in the ranked
  list in their pool order: the one ranked earlier has the smaller pool index.
\<close>

theorem equal_scores_keep_pool_order:
  assumes "model = Some m" and "sims = m (map chunk_text sections) query"
    and "length sims = length sections" and "sections \<noteq> []"
  shows "rank_sections K model sections query =
           map (\<lambda>(rank, idx). make_ranked (sections ! idx) (rank + 1) (sims ! idx))
             (enumerate 0 (ranked_order K sims sections))
         \<and> (\<forall>a b. a < b \<and> b < length (ranked_order K sims sections)
               \<and> weighted sims sections (ranked_order K sims sections ! a)
                   = weighted sims sections (ranked_order K sims sections ! b)
             \<longrightarrow> ranked_order K sims sections ! a < ranked_order K sims sections ! b)"
proof (intro conjI allI impI)
  show "rank_sections K model sections query =
           map (\<lambda>(rank, idx). make_ranked (sections ! idx) (rank + 1) (sims ! idx))
             (enumerate 0 (ranked_order K sims sections))"
    unfolding assms(2) using assms(1) assms(4) by (rule rank_sections_items)
next
  fix a b
  assume h: "a < b \<and> b < length (ranked_order K sims sections)
               \<and> weighted sims sections (ranked_order K sims sections ! a)
                   = weighted sims sections (ranked_order K sims sections ! b)"
  show "ranked_order K sims sections ! a < ranked_order K sims sections ! b"
    using ranked_order_ties [OF assms(3), of a b K] h by blast
qed

text \<open>
  Abstract and conclusion, both with similarity 0.5, tie at 0.6 behind methodology
  (0.65); the abstract, first in the pool, stays ahead of the conclusion.
\<close>

theorem equal_scores_keep_pool_order_witness:
  "ranked_order 10 [1 / 2, 1 / 2, 1 / 2] [abs_sec, meth_sec, concl_sec] = [1, 0, 2]
   \<and> weighted [1 / 2, 1 / 2, 1 / 2] [abs_sec, meth_sec, concl_sec] (ranked_order 10 [1 / 2, 1 / 2, 1 / 2] [abs_sec, meth_sec, concl_sec] ! 1) = weighted [1 / 2, 1 / 2, 1 / 2] [abs_sec, meth_sec, concl_sec] (ranked_order 10 [1 / 2, 1 / 2, 1 / 2] [abs_sec, meth_sec, concl_sec] ! 2)
   \<and> ranked_order 10 [1 / 2, 1 / 2, 1 / 2] [abs_sec, meth_sec, concl_sec] ! 1 < ranked_order 10 [1 / 2, 1 / 2, 1 / 2] [abs_sec, meth_sec, concl_sec] ! 2"
proof -
  have h: "[1 / 2, 1 / 2, 1 / 2] = fixed_similarities [1 / 2, 1 / 2, 1 / 2]
      (map chunk_text [abs_sec, meth_sec, concl_sec]) ''Summarize risk | Role: Analyst''"
    by (simp add: fixed_similarities_def)
  have l: "length ([1 / 2, 1 / 2, 1 / 2] :: real list) = length [abs_sec, meth_sec, concl_sec]" by simp
  have n: "[abs_sec, meth_sec, concl_sec] \<noteq> []" by simp
  note t = equal_scores_keep_pool_order
    [where model = "Some (fixed_similarities [1 / 2, 1 / 2, 1 / 2])" and m = "fixed_similarities [1 / 2, 1 / 2, 1 / 2]"
      and sims = "[1 / 2, 1 / 2, 1 / 2]" and sections = "[abs_sec, meth_sec, concl_sec]"
      and query = "''Summarize risk | Role: Analyst''" and K = 10, OF refl h l n]
  have len: "(1::nat) < 2 \<and> 2 < length (ranked_order 10 [1 / 2, 1 / 2, 1 / 2] [abs_sec, meth_sec, concl_sec])"
    by (simp add: ex_order3)
  have w: "weighted [1 / 2, 1 / 2, 1 / 2] [abs_sec, meth_sec, concl_sec] (ranked_order 10 [1 / 2, 1 / 2, 1 / 2] [abs_sec, meth_sec, concl_sec] ! 1) = weighted [1 / 2, 1 / 2, 1 / 2] [abs_sec, meth_sec, concl_sec] (ranked_order 10 [1 / 2, 1 / 2, 1 / 2] [abs_sec, meth_sec, concl_sec] ! 2)"
    unfolding ex_order3
    by (simp add: weighted_def weight_of_def weight_table_def get_or_def abs_sec_def concl_sec_def)
  from t len w have "ranked_order 10 [1 / 2, 1 / 2, 1 / 2] [abs_sec, meth_sec, concl_sec] ! 1 < ranked_order 10 [1 / 2, 1 / 2, 1 / 2] [abs_sec, meth_sec, concl_sec] ! 2" by blast
  with ex_order3 w show ?thesis by blast
qed

text \<open>
  Claim C4. For a pool of \<open>n\<close> sections and a count \<open>K \<ge> 0\<close> the ranker returns
  \<open>min K n\<close> items, their ranks are \<open>1, 2, \<dots>, min K n\<close>, and their weighted
  scores do not increase along the list; when \<open>K\<close> exceeds \<open>n\<close> all \<open>n\<close> sections are
  returned. (\<^verbatim>\<open>top_k\<close> is a Python integer; the slice reads a negative value from
  the end of the list, which is why \<open>K\<close> is taken non-negative here, as a count is.)
\<close>

theorem top_k_ranks:
  assumes "model = Some m" and "sims = m (map chunk_text sections) query"
    and "length sims = length sections" and "sections \<noteq> []" and "0 \<le> K"
  shows "length (rank_sections K model sections query) = min (nat K) (length sections)
         \<and> map importance_rank (rank_sections K model sections query)
             = [1..<Suc (min (nat K) (length sections))]
         \<and> length (ranked_order K sims sections) = min (nat K) (length sections)
         \<and> sorted_wrt (\<lambda>x y. y \<le> x) (map (weighted sims sections) (ranked_order K sims sections))
         \<and> rank_sections K model sections query =
             map (\<lambda>(rank, idx). make_ranked (sections ! idx) (rank + 1) (sims ! idx))
               (enumerate 0 (ranked_order K sims sections))"
proof -
  have eq: "rank_sections K model sections query =
           map (\<lambda>(rank, idx). make_ranked (sections ! idx) (rank + 1) (sims ! idx))
             (enumerate 0 (ranked_order K sims sections))"
    unfolding assms(2) using assms(1) assms(4) by (rule rank_sections_items)
  have len: "length (ranked_order K sims sections) = min (nat K) (length sections)"
    using length_selected [OF assms(3) assms(5)] by (simp add: ranked_order_def)
  have "map importance_rank (rank_sections K model sections query)
             = map Suc [0..<min (nat K) (length sections)]"
    by (rule nth_equalityI) (simp_all add: eq len nth_enumerate_eq make_ranked_def)
  also have "\<dots> = [1..<Suc (min (nat K) (length sections))]"
    by (simp only: map_Suc_upt One_nat_def)
  finally have ranks: "map importance_rank (rank_sections K model sections query)
             = [1..<Suc (min (nat K) (length sections))]" .
  have srt: "sorted_wrt (\<lambda>x y. y \<le> x) (map (weighted sims sections) (ranked_order K sims sections))"
    using ranked_order_weights [OF assms(3), of K] by (simp add: sorted_wrt_map)
  show ?thesis using eq len ranks srt by simp
qed

text \<open>With \<open>K = 10\<close> and three sections: three items, ranks 1, 2, 3.\<close>

theorem top_k_ranks_witness:
  "(0::int) \<le> 10
   \<and> length (rank_sections 10 (Some (fixed_similarities [1 / 2, 1 / 2, 1 / 2]))
        [abs_sec, meth_sec, concl_sec] ''Summarize risk | Role: Analyst'') = 3
   \<and> map importance_rank (rank_sections 10 (Some (fixed_similarities [1 / 2, 1 / 2, 1 / 2]))
        [abs_sec, meth_sec, concl_sec] ''Summarize risk | Role: Analyst'') = [1, 2, 3]
   \<and> map (weighted [1 / 2, 1 / 2, 1 / 2] [abs_sec, meth_sec, concl_sec])
        (ranked_order 10 [1 / 2, 1 / 2, 1 / 2] [abs_sec, meth_sec, concl_sec])
       = [65 / 100, 6 / 10, 6 / 10]"
proof -
  have h: "[1 / 2, 1 / 2, 1 / 2] = fixed_similarities [1 / 2, 1 / 2, 1 / 2]
      (map chunk_text [abs_sec, meth_sec, concl_sec]) ''Summarize risk | Role: Analyst''"
    by (simp add: fixed_similarities_def)
  have l: "length [1 / 2, 1 / 2, 1 / 2 :: real] = length [abs_sec, meth_sec, concl_sec]" by simp
  have n: "[abs_sec, meth_sec, concl_sec] \<noteq> []" by simp
  have k: "(0::int) \<le> 10" by simp
  note t = top_k_ranks
    [where model = "Some (fixed_similarities [1 / 2, 1 / 2, 1 / 2])" and m = "fixed_similarities [1 / 2, 1 / 2, 1 / 2]"
      and sims = "[1 / 2, 1 / 2, 1 / 2]" and sections = "[abs_sec, meth_sec, concl_sec]"
      and query = "''Summarize risk | Role: Analyst''" and K = 10, OF refl h l n k]
  have a: "length (rank_sections 10 (Some (fixed_similarities [1 / 2, 1 / 2, 1 / 2]))
        [abs_sec, meth_sec, concl_sec] ''Summarize risk | Role: Analyst'') = 3"
    using t by simp
  have b0: "map importance_rank (rank_sections 10 (Some (fixed_similarities [1 / 2, 1 / 2, 1 / 2]))
        [abs_sec, meth_sec, concl_sec] ''Summarize risk | Role: Analyst'')
      = [1..<Suc (min (nat 10) (length [abs_sec, meth_sec, concl_sec]))]"
    using t by blast
  have b1: "[1..<Suc (min (nat 10) (length [abs_sec, meth_sec, concl_sec]))] = [1, 2, 3]"
    by (simp add: upt_rec)
  have b: "map importance_rank (rank_sections 10 (Some (fixed_similarities [1 / 2, 1 / 2, 1 / 2]))
        [abs_sec, meth_sec, concl_sec] ''Summarize risk | Role: Analyst'') = [1, 2, 3]"
    by (rule trans [OF b0 b1])
  have c: "map (weighted [1 / 2, 1 / 2, 1 / 2] [abs_sec, meth_sec, concl_sec])
        (ranked_order 10 [1 / 2, 1 / 2, 1 / 2] [abs_sec, meth_sec, concl_sec])
       = [65 / 100, 6 / 10, 6 / 10]"
    unfolding ex_order3
    by (simp add: weighted_def weight_of_def weight_table_def get_or_def abs_sec_def
        meth_sec_def concl_sec_def)
  from k a b c show ?thesis by blast
qed

section \<open>Empty results of the ranker\<close>

text \<open>
  Claim C8 says that ranking gives the empty list when the sections are empty, when
  the query is empty, or when no model is available. The guard of \<^verbatim>\<open>rank_sections\<close>
  tests the sections and the model only; the query is not looked at. With a model, one
  section and the empty query, the result has one item.
\<close>

theorem rank_empty_query_counterexample:
  "rank_sections 10 (Some (fixed_similarities [1 / 2]))
     [\<lparr>document = ''a.pdf'', chunk_text = ''some text'', section_title = ''Content'',
       page = 1, content_type = Some ''content''\<rparr>] []
   = [\<lparr>r_document = ''a.pdf'', r_text = ''some text'', r_section_title = ''Content'',
       r_page = 1, r_content_type = Some ''content'', importance_rank = 1,
       relevance_score = 1 / 2\<rparr>]"
  by (simp add: rank_sections_def selected_def py_prefix_def sort_reverse_def
      weighted_scores_def weight_of_def weight_table_def get_or_def make_ranked_def
      fixed_similarities_def enumerate_eq_zip)

text \<open>
  Claim C8, amended. Ranking gives the empty list whenever the section collection is
  empty or no model is loaded, whatever the query.
\<close>

theorem rank_empty:
  "sections = [] \<or> model = None \<Longrightarrow> rank_sections top_k model sections query = []"
  by (auto simp: rank_sections_def split: option.splits)

theorem rank_empty_witness:
  "rank_sections 10 (Some (fixed_similarities [])) [] ''Summarize risk | Role: Analyst'' = []
   \<and> rank_sections 10 None
       [\<lparr>document = ''a.pdf'', chunk_text = ''some text'', section_title = ''Content'',
         page = 1, content_type = Some ''content''\<rparr>] ''Summarize risk | Role: Analyst'' = []"
  using rank_empty [of "[]" "Some (fixed_similarities [])" 10 "''Summarize risk | Role: Analyst''"]
    rank_empty [of "[\<lparr>document = ''a.pdf'', chunk_text = ''some text'',
       section_title = ''Content'', page = 1, content_type = Some ''content''\<rparr>]" None 10
       "''Summarize risk | Role: Analyst''"]
  by simp

end
